theory Spec2Isabelle
  imports Main "HOL-Library.Sublist"
begin

section \<open>The DNA assembler of swarm/assemble-dna.py\<close>

text \<open>
  The script builds one instruction document per agent role from text components kept in
  \<^verbatim>\<open>components/<name>.md\<close>, substitutes \<^verbatim>\<open>{{KEY}}\<close> placeholders, and writes the
  documents to \<^verbatim>\<open>dna/\<close>. The embedding follows class \<^verbatim>\<open>DNAAssembler\<close> method by method.
  What the methods read from outside is passed in:
  \<^item> the components directory, a map from component name to the text of its file;
  \<^item> the specializations directory, the list of its \<^verbatim>\<open>.yaml\<close> files in the order
    \<^verbatim>\<open>glob\<close> yields them, each with what \<^verbatim>\<open>yaml.safe_load\<close> returns for it;
  \<^item> the clock, \<^verbatim>\<open>datetime.now().isoformat()\<close>, as a text per assembly call;
  \<^item> the output directory, as the outcome of each write call of the run.
\<close>

subsection \<open>Errors and loaded values\<close>

datatype error =
    AttributeError
  | OSError string "string option"

text \<open>
  What \<^verbatim>\<open>yaml.safe_load\<close> returns for a file: \<^verbatim>\<open>None\<close> for an empty document, a
  \<^verbatim>\<open>dict\<close> for a mapping, and a list or scalar otherwise. The program reads an attribute of
  the dict only through \<^verbatim>\<open>str()\<close> (in an f-string or in \<^verbatim>\<open>substitute_variables\<close>), so the
  dict holds each attribute as that text.
\<close>

datatype py_value =
    PyNone
  | PyDict "string \<rightharpoonup> string"
  | PyOther

type_synonym components_dir = "string \<rightharpoonup> string"
type_synonym specializations_dir = "(string \<times> py_value) list"
type_synonym variables = "(string \<times> string) list"

subsection \<open>Python's string and list primitives\<close>

definition newline :: string where
  "newline = [CHR 0x0A]"

text \<open>\<^verbatim>\<open>s.replace(old, new)\<close> for a non-empty \<^verbatim>\<open>old\<close>: one scan from the left, each
  occurrence found is replaced and the scan goes on behind it.\<close>

function scan_replace :: "string \<Rightarrow> string \<Rightarrow> string \<Rightarrow> string" where
  "scan_replace old new s =
     (if old = [] \<or> s = [] then s
      else if prefix old s then new @ scan_replace old new (drop (length old) s)
      else hd s # scan_replace old new (tl s))"
  by pat_completeness auto
termination
  by (relation "measure (\<lambda>(old, new, s). length s)") auto

declare scan_replace.simps [simp del]

text \<open>\<^verbatim>\<open>s.replace(old, new)\<close>; an empty \<^verbatim>\<open>old\<close> matches before every character and at
  the end.\<close>

definition replace :: "string \<Rightarrow> string \<Rightarrow> string \<Rightarrow> string" where
  "replace old new s =
     (if old = [] then new @ concat (map (\<lambda>c. c # new) s) else scan_replace old new s)"

text \<open>\<^verbatim>\<open>sep.join(xs)\<close>.\<close>

fun join :: "string \<Rightarrow> string list \<Rightarrow> string" where
  "join sep [] = []"
| "join sep [x] = x"
| "join sep (x # y # ys) = x @ sep @ join sep (y # ys)"

text \<open>\<^verbatim>\<open>xs.insert(i, x)\<close>: a negative index counts from the end, and an index outside
  the list is clamped to its ends.\<close>

definition list_insert :: "int \<Rightarrow> 'a \<Rightarrow> 'a list \<Rightarrow> 'a list" where
  "list_insert i x xs =
     (let n = int (length xs);
          j = (if i < 0 then max 0 (n + i) else min n i)
      in take (nat j) xs @ x # drop (nat j) xs)"

text \<open>\<^verbatim>\<open>d.get(key, default)\<close>.\<close>

definition dict_get :: "(string \<rightharpoonup> string) \<Rightarrow> string \<Rightarrow> string \<Rightarrow> string" where
  "dict_get d key dflt = (case d key of Some v \<Rightarrow> v | None \<Rightarrow> dflt)"

subsection \<open>Loading\<close>

definition load_component :: "components_dir \<Rightarrow> string \<Rightarrow> string" where
  "load_component components name = (case components name of Some text \<Rightarrow> text | None \<Rightarrow> [])"

definition load_specialization :: "specializations_dir \<Rightarrow> string \<Rightarrow> py_value" where
  "load_specialization specializations name =
     (case map_of specializations name of Some data \<Rightarrow> data | None \<Rightarrow> PyDict Map.empty)"

subsection \<open>Variable substitution\<close>

definition placeholder :: "string \<Rightarrow> string" where
  "placeholder key = ''{{'' @ key @ ''}}''"

fun substitute_variables :: "string \<Rightarrow> variables \<Rightarrow> string" where
  "substitute_variables content [] = content"
| "substitute_variables content ((key, v) # rest) =
     substitute_variables (replace (placeholder key) v content) rest"

subsection \<open>Composition\<close>

definition protocol_reference :: string where
  "protocol_reference =
     newline @ ''## SWARM PROTOCOL'' @ newline @ newline @
     ''Follow the swarm protocol defined in `swarm/component/protocol.md` for task management, workspace isolation, and coordination rules.''"

definition separator :: string where
  "separator = newline @ newline"

text \<open>The loop of \<^verbatim>\<open>_assemble_dna\<close>: \<^verbatim>\<open>sections\<close> is the list built so far.\<close>

fun collect_sections :: "components_dir \<Rightarrow> variables \<Rightarrow> string list \<Rightarrow> string list \<Rightarrow> string list" where
  "collect_sections store vars [] sections = sections"
| "collect_sections store vars (component # components) sections =
     (let content = load_component store component
      in if content \<noteq> []
         then collect_sections store vars components (sections @ [substitute_variables content vars])
         else collect_sections store vars components sections)"

definition assemble_dna :: "components_dir \<Rightarrow> string list \<Rightarrow> variables \<Rightarrow> string" where
  "assemble_dna store components vars =
     join separator (collect_sections store vars components [] @ [protocol_reference])"

subsection \<open>The three roles\<close>

definition queen_components :: "string list" where
  "queen_components =
     [''base-header'', ''prime-directive'', ''sub-agent-context'', ''project-context'',
      ''queen-capabilities'', ''workflow-start'', ''queen-output'']"

definition queen_variables :: "string \<Rightarrow> variables" where
  "queen_variables now =
     [(''AGENT_TYPE'', ''Queen''),
      (''AGENT_ID'', ''zen-queen''),
      (''TIMESTAMP'', now),
      (''SPECIALIZATION'', ''Strategic Coordination''),
      (''PRIME_DIRECTIVE'', ''Lead the swarm to successfully implement the ZEN language interpreter by analyzing project state, identifying critical paths, and recommending optimal task assignments. You coordinate but do NOT implement code.''),
      (''TOOL_ACCESS'', ''Read, Bash (for make vision/enforce)'')]"

definition assemble_queen_dna :: "components_dir \<Rightarrow> string \<Rightarrow> string" where
  "assemble_queen_dna store now = assemble_dna store queen_components (queen_variables now)"

definition architect_components :: "string list" where
  "architect_components =
     [''base-header'', ''prime-directive'', ''sub-agent-context'', ''project-context'',
      ''architect-capabilities'', ''workflow-start'', ''coding-standards'', ''architect-output'']"

definition architect_variables :: "string \<Rightarrow> variables" where
  "architect_variables now =
     [(''AGENT_TYPE'', ''Architect''),
      (''AGENT_ID'', ''zen-architect''),
      (''TIMESTAMP'', now),
      (''SPECIALIZATION'', ''System Design''),
      (''PRIME_DIRECTIVE'', ''Design the technical architecture of ZEN language components, creating clear specifications that workers can implement without ambiguity. You design but do NOT implement code.''),
      (''TOOL_ACCESS'', ''Read, Write (for design docs)'')]"

definition assemble_architect_dna :: "components_dir \<Rightarrow> string \<Rightarrow> string" where
  "assemble_architect_dna store now =
     assemble_dna store architect_components (architect_variables now)"

definition worker_base_components :: "string list" where
  "worker_base_components =
     [''base-header'', ''prime-directive'', ''sub-agent-context'', ''project-context'',
      ''worker-capabilities'', ''workflow-start'', ''coding-standards'', ''worker-output'']"

definition worker_components :: "string \<Rightarrow> string list" where
  "worker_components specialization =
     (if specialization \<noteq> ''general''
      then list_insert (- 1) ''worker-specializations'' worker_base_components
      else worker_base_components)"

definition worker_variables :: "string \<Rightarrow> (string \<rightharpoonup> string) \<Rightarrow> string \<Rightarrow> variables" where
  "worker_variables specialization spec_data now =
     [(''AGENT_TYPE'', ''Worker''),
      (''AGENT_ID'', ''zen-worker-'' @ specialization),
      (''TIMESTAMP'', now),
      (''SPECIALIZATION'', specialization),
      (''PRIME_DIRECTIVE'',
         ''Transform architectural designs into working code that strictly adheres to MANIFEST.json specifications. You are specialized in ''
         @ dict_get spec_data ''description'' ''general implementation''
         @ ''. You implement with precision but do NOT make architectural decisions.''),
      (''TOOL_ACCESS'', ''Read, Edit, MultiEdit, Bash''),
      (''SPECIALIZATION_DETAILS'', dict_get spec_data ''details'' []),
      (''FOCUS_AREAS'', dict_get spec_data ''focus_areas'' []),
      (''KEY_PATTERNS'', dict_get spec_data ''key_patterns'' [])]"

text \<open>\<^verbatim>\<open>spec_data.get\<close> exists only on a dict: on \<^verbatim>\<open>None\<close>, a list or a scalar the
  attribute lookup raises \<^verbatim>\<open>AttributeError\<close>.\<close>

definition assemble_worker_dna ::
    "components_dir \<Rightarrow> specializations_dir \<Rightarrow> string \<Rightarrow> string \<Rightarrow> error + string" where
  "assemble_worker_dna store specializations now specialization =
     (let components = worker_components specialization;
          spec_data = (if specialization \<noteq> ''general''
                       then load_specialization specializations specialization
                       else PyDict Map.empty)
      in case spec_data of
           PyDict d \<Rightarrow> Inr (assemble_dna store components (worker_variables specialization d now))
         | PyNone \<Rightarrow> Inl AttributeError
         | PyOther \<Rightarrow> Inl AttributeError)"

subsection \<open>Saving and the batch\<close>

text \<open>
  \<^verbatim>\<open>save_dna\<close> makes the directory and calls \<^verbatim>\<open>write_text\<close>, which opens the file for
  writing, creating or truncating it, and then writes the text. What becomes of one such
  call is decided outside the program:
  \<^item> \<open>Stored\<close>: the call goes through and the file holds the text;
  \<^item> \<open>Refused\<close>: \<^verbatim>\<open>mkdir\<close> or the opening raises, and the file is not touched;
  \<^item> \<open>Broken k\<close>: the file has been opened and the writing raises when \<open>k\<close>
    characters have reached it, so the file is left holding that beginning of the text.

  The outcomes are passed in as a function of the number of the call within the run, so
  that the same file name can be stored once and fail later. The state is the list of the
  calls that went through, oldest first. An \<open>OSError\<close> carries the file name and what
  the failed call has left in the file: \<open>None\<close> when the file was not opened, and
  otherwise the text the file holds now.
\<close>

datatype write_outcome = Stored | Refused | Broken nat

fun left_in_file :: "write_outcome \<Rightarrow> string \<Rightarrow> string option" where
  "left_in_file Stored content = Some content"
| "left_in_file Refused content = None"
| "left_in_file (Broken k) content = Some (take k content)"

type_synonym writes = "(string \<times> string) list"

definition dna_filename :: "string \<Rightarrow> string option \<Rightarrow> string" where
  "dna_filename role specialization =
     (case specialization of
        Some s \<Rightarrow> (if role = ''worker'' \<and> s \<noteq> [] then role @ ''-'' @ s @ ''.md'' else role @ ''.md'')
      | None \<Rightarrow> role @ ''.md'')"

definition save_dna ::
    "write_outcome \<Rightarrow> string \<Rightarrow> string \<Rightarrow> string option \<Rightarrow> writes \<Rightarrow> error + writes" where
  "save_dna outcome role content specialization files =
     (let filename = dna_filename role specialization
      in if outcome = Stored then Inr (files @ [(filename, content)])
         else Inl (OSError filename (left_in_file outcome content)))"

text \<open>The loop over \<^verbatim>\<open>glob("*.yaml")\<close>; \<^verbatim>\<open>n\<close> counts the assembly calls made so far,
  each of which is followed by one call of \<^verbatim>\<open>save_dna\<close>, and the result is the writes
  carried out together with the exception that ended the run, if one did.\<close>

fun assemble_specialized ::
    "components_dir \<Rightarrow> specializations_dir \<Rightarrow> (nat \<Rightarrow> string) \<Rightarrow> (nat \<Rightarrow> write_outcome) \<Rightarrow>
     nat \<Rightarrow> string list \<Rightarrow> writes \<Rightarrow> writes \<times> error option" where
  "assemble_specialized store specs clock disk n [] files = (files, None)"
| "assemble_specialized store specs clock disk n (spec_name # rest) files =
     (case assemble_worker_dna store specs (clock n) spec_name of
        Inl e \<Rightarrow> (files, Some e)
      | Inr worker_dna \<Rightarrow>
          (case save_dna (disk n) ''worker'' worker_dna (Some spec_name) files of
             Inl e \<Rightarrow> (files, Some e)
           | Inr files' \<Rightarrow> assemble_specialized store specs clock disk (Suc n) rest files'))"

definition assemble_all ::
    "components_dir \<Rightarrow> specializations_dir \<Rightarrow> (nat \<Rightarrow> string) \<Rightarrow> (nat \<Rightarrow> write_outcome) \<Rightarrow>
     writes \<times> error option" where
  "assemble_all store specs clock disk =
     (case save_dna (disk 0) ''queen'' (assemble_queen_dna store (clock 0)) None [] of
        Inl e \<Rightarrow> ([], Some e)
      | Inr files1 \<Rightarrow>
     (case save_dna (disk 1) ''architect'' (assemble_architect_dna store (clock 1)) None files1 of
        Inl e \<Rightarrow> (files1, Some e)
      | Inr files2 \<Rightarrow>
     (case assemble_worker_dna store specs (clock 2) ''general'' of
        Inl e \<Rightarrow> (files2, Some e)
      | Inr worker_dna \<Rightarrow>
     (case save_dna (disk 2) ''worker'' worker_dna (Some ''general'') files2 of
        Inl e \<Rightarrow> (files2, Some e)
      | Inr files3 \<Rightarrow>
          assemble_specialized store specs clock disk 3 (map fst specs) files3))))"

subsection \<open>Placeholder texts, as the specification describes them\<close>

text \<open>
  The specification speaks of a text as literal passages and placeholders
  \<^verbatim>\<open>{{NAME}}\<close> whose names are identifiers, and of substitution as replacing each
  placeholder by the value of its key, all at once. These definitions state that reading;
  they are compared with \<^const>\<open>substitute_variables\<close> below.
\<close>

definition brace_free :: "string \<Rightarrow> bool" where
  "brace_free s = (CHR ''{'' \<notin> set s \<and> CHR ''}'' \<notin> set s)"

datatype token = Lit string | Var string

fun token_text :: "token \<Rightarrow> string" where
  "token_text (Lit s) = s"
| "token_text (Var k) = placeholder k"

definition render :: "token list \<Rightarrow> string" where
  "render toks = concat (map token_text toks)"

fun token_value :: "variables \<Rightarrow> token \<Rightarrow> string" where
  "token_value m (Lit s) = s"
| "token_value m (Var k) = (case map_of m k of Some v \<Rightarrow> v | None \<Rightarrow> placeholder k)"

definition simultaneous_substitution :: "variables \<Rightarrow> token list \<Rightarrow> string" where
  "simultaneous_substitution m toks = concat (map (token_value m) toks)"

fun token_ok :: "token \<Rightarrow> bool" where
  "token_ok (Lit s) = (CHR ''{'' \<notin> set s)"
| "token_ok (Var k) = brace_free k"

fun variable_ok :: "string \<times> string \<Rightarrow> bool" where
  "variable_ok (k, v) = (brace_free k \<and> CHR ''{'' \<notin> set v)"

text \<open>One pass for key \<open>k\<close> seen on the passages: its placeholder becomes the literal text \<open>v\<close>.\<close>

fun replace_token :: "string \<Rightarrow> string \<Rightarrow> token \<Rightarrow> token" where
  "replace_token k v (Lit s) = Lit s"
| "replace_token k v (Var k') = (if k' = k then Lit v else Var k')"

section \<open>Facts about the primitives\<close>

lemma scan_replace_Nil: "scan_replace old new [] = []"
  by (simp add: scan_replace.simps)

lemma scan_replace_match:
  assumes "old \<noteq> []"
  shows "scan_replace old new (old @ s) = new @ scan_replace old new s"
  using assms by (subst scan_replace.simps) simp

lemma scan_replace_step:
  assumes "old \<noteq> []" and "\<not> prefix old (c # s)"
  shows "scan_replace old new (c # s) = c # scan_replace old new s"
  using assms by (subst scan_replace.simps) simp

lemma scan_replace_skip:
  assumes "old \<noteq> []" and "hd old \<notin> set x"
  shows "scan_replace old new (x @ s) = x @ scan_replace old new s"
  using assms
proof (induction x)
  case Nil
  then show ?case by simp
next
  case (Cons c cs)
  from Cons.prems have "\<not> prefix old (c # cs @ s)"
    by (cases old) auto
  with Cons show ?case
    by (simp add: scan_replace_step)
qed

subsection \<open>Scanning a text of passages and placeholders\<close>

lemma placeholder_nonempty: "placeholder k \<noteq> []"
  by (simp add: placeholder_def)

lemma hd_placeholder: "hd (placeholder k) = CHR ''{''"
  by (simp add: placeholder_def)

lemma replace_placeholder: "replace (placeholder k) v s = scan_replace (placeholder k) v s"
  by (simp add: replace_def placeholder_nonempty)

lemma key_prefix_unique:
  assumes "CHR ''}'' \<notin> set a" and "CHR ''}'' \<notin> set k"
    and "prefix (a @ CHR ''}'' # r) (k @ CHR ''}'' # r')"
  shows "a = k"
  using assms
proof (induction a arbitrary: k)
  case Nil
  then show ?case by (cases k) auto
next
  case (Cons x xs)
  then show ?case by (cases k) auto
qed

lemma no_match_at_other_placeholder:
  assumes "brace_free a" and "brace_free k" and "a \<noteq> k"
  shows "\<not> prefix (placeholder a) (placeholder k @ s)"
proof
  assume "prefix (placeholder a) (placeholder k @ s)"
  then have "prefix (a @ CHR ''}'' # ''}'') (k @ CHR ''}'' # (''}'' @ s))"
    by (simp add: placeholder_def)
  with assms show False
    using key_prefix_unique [of a k] by (simp add: brace_free_def)
qed

lemma no_match_inside_placeholder:
  assumes "brace_free k"
  shows "\<not> prefix (placeholder a) (CHR ''{'' # k @ ''}}'' @ s)"
  using assms by (cases k) (auto simp: placeholder_def brace_free_def)

lemma scan_other_placeholder:
  assumes "brace_free a" and "brace_free k" and "a \<noteq> k"
  shows "scan_replace (placeholder a) v (placeholder k @ s) = placeholder k @ scan_replace (placeholder a) v s"
proof -
  have 1: "\<not> prefix (placeholder a) (CHR ''{'' # CHR ''{'' # k @ ''}}'' @ s)"
    using no_match_at_other_placeholder [OF assms, of s] by (simp add: placeholder_def)
  have 2: "\<not> prefix (placeholder a) (CHR ''{'' # k @ ''}}'' @ s)"
    using no_match_inside_placeholder [OF assms(2)] .
  have 3: "scan_replace (placeholder a) v ((k @ ''}}'') @ s) = (k @ ''}}'') @ scan_replace (placeholder a) v s"
    using assms(2) by (intro scan_replace_skip) (auto simp: placeholder_nonempty hd_placeholder brace_free_def)
  have "scan_replace (placeholder a) v (placeholder k @ s)
      = scan_replace (placeholder a) v (CHR ''{'' # CHR ''{'' # k @ ''}}'' @ s)"
    by (simp add: placeholder_def)
  also have "\<dots> = CHR ''{'' # scan_replace (placeholder a) v (CHR ''{'' # k @ ''}}'' @ s)"
    using 1 by (simp add: scan_replace_step placeholder_nonempty)
  also have "\<dots> = CHR ''{'' # CHR ''{'' # scan_replace (placeholder a) v (k @ ''}}'' @ s)"
    using 2 by (simp add: scan_replace_step placeholder_nonempty)
  also have "\<dots> = CHR ''{'' # CHR ''{'' # (k @ ''}}'') @ scan_replace (placeholder a) v s"
    using 3 by simp
  finally show ?thesis by (simp add: placeholder_def)
qed

lemma scan_render:
  assumes "list_all token_ok toks" and "brace_free k"
  shows "scan_replace (placeholder k) v (render toks) = render (map (replace_token k v) toks)"
  using assms(1)
proof (induction toks)
  case Nil
  then show ?case by (simp add: render_def scan_replace_Nil)
next
  case (Cons t ts)
  then have ih: "scan_replace (placeholder k) v (render ts) = render (map (replace_token k v) ts)"
    by simp
  show ?case
  proof (cases t)
    case (Lit s)
    with Cons.prems have "hd (placeholder k) \<notin> set s"
      by (simp add: hd_placeholder)
    then have "scan_replace (placeholder k) v (s @ render ts) = s @ scan_replace (placeholder k) v (render ts)"
      by (intro scan_replace_skip) (simp_all add: placeholder_nonempty)
    with ih Lit show ?thesis by (simp add: render_def)
  next
    case (Var k')
    show ?thesis
    proof (cases "k' = k")
      case True
      have "scan_replace (placeholder k) v (placeholder k @ render ts) = v @ scan_replace (placeholder k) v (render ts)"
        by (rule scan_replace_match) (rule placeholder_nonempty)
      with ih Var True show ?thesis by (simp add: render_def)
    next
      case False
      with Cons.prems Var assms(2)
      have "scan_replace (placeholder k) v (placeholder k' @ render ts) = placeholder k' @ scan_replace (placeholder k) v (render ts)"
        by (intro scan_other_placeholder) auto
      with ih Var False show ?thesis by (simp add: render_def)
    qed
  qed
qed

lemma replace_token_ok:
  assumes "list_all token_ok toks" and "CHR ''{'' \<notin> set v"
  shows "list_all token_ok (map (replace_token k v) toks)"
  using assms by (induction toks) (auto elim: token_ok.elims)

lemma token_value_replace:
  "token_value m (replace_token k v t) = token_value ((k, v) # m) t"
  by (cases t) auto

lemma substitute_render:
  assumes "list_all token_ok toks" and "list_all variable_ok m"
  shows "substitute_variables (render toks) m = simultaneous_substitution m toks"
  using assms
proof (induction m arbitrary: toks)
  case Nil
  have "token_text t = token_value [] t" for t
    by (cases t) auto
  then have "token_text = token_value []"
    by (rule ext)
  then show ?case by (simp add: render_def simultaneous_substitution_def)
next
  case (Cons kv m)
  obtain k v where kv: "kv = (k, v)" by (cases kv)
  with Cons.prems have ok: "brace_free k" "CHR ''{'' \<notin> set v" "list_all variable_ok m"
    by auto
  have "substitute_variables (render toks) (kv # m)
      = substitute_variables (render (map (replace_token k v) toks)) m"
    using scan_render [OF Cons.prems(1) ok(1)] by (simp add: kv replace_placeholder)
  also have "\<dots> = simultaneous_substitution m (map (replace_token k v) toks)"
    using Cons.IH [OF replace_token_ok [OF Cons.prems(1) ok(2)] ok(3)] .
  also have "\<dots> = simultaneous_substitution (kv # m) toks"
    by (simp add: simultaneous_substitution_def kv token_value_replace comp_def)
  finally show ?case .
qed

subsection \<open>A placeholder of another key is passed over\<close>

lemma no_match_into_placeholder:
  assumes "brace_free a" and "brace_free k" and "a \<noteq> k"
    and "\<not> prefix (placeholder a) x"
  shows "\<not> prefix (placeholder a) (x @ placeholder k @ y)"
proof
  assume "prefix (placeholder a) (x @ placeholder k @ y)"
  with assms(4) obtain us where us: "placeholder a = x @ us" "prefix us (placeholder k @ y)"
    by (auto simp: prefix_append)
  from us(1) assms(4) have "us \<noteq> []" by auto
  then obtain u us' where "us = u # us'" by (cases us) auto
  with us(2) have u: "us = CHR ''{'' # us'" by (simp add: placeholder_def)
  show False
  proof (cases x)
    case Nil
    with us have "prefix (placeholder a) (placeholder k @ y)" by simp
    with assms show False using no_match_at_other_placeholder by blast
  next
    case outer: (Cons c x')
    show False
    proof (cases x')
      case Nil
      with outer us(1) have "us = CHR ''{'' # a @ ''}}''" by (auto simp: placeholder_def)
      with us(2) have "prefix (a @ ''}}'') (CHR ''{'' # k @ ''}}'' @ y)"
        by (simp add: placeholder_def)
      with assms(1) show False by (cases a) (auto simp: brace_free_def)
    next
      case (Cons c' x'')
      with outer us(1) u have "a @ ''}}'' = x'' @ CHR ''{'' # us'" by (simp add: placeholder_def)
      moreover have "CHR ''{'' \<in> set (x'' @ CHR ''{'' # us')" by simp
      ultimately have "CHR ''{'' \<in> set (a @ ''}}'')" by metis
      with assms(1) show False by (simp add: brace_free_def)
    qed
  qed
qed

lemma scan_around_placeholder:
  assumes "brace_free a" and "brace_free k" and "a \<noteq> k"
  shows "scan_replace (placeholder a) v (x @ placeholder k @ y)
       = scan_replace (placeholder a) v x @ placeholder k @ scan_replace (placeholder a) v y"
proof (induction x rule: length_induct)
  case (1 x)
  show ?case
  proof (cases "prefix (placeholder a) x")
    case True
    then obtain x' where x: "x = placeholder a @ x'" by (auto elim: prefixE)
    then have "length x' < length x" by (simp add: placeholder_def)
    with 1 have ih: "scan_replace (placeholder a) v (x' @ placeholder k @ y)
        = scan_replace (placeholder a) v x' @ placeholder k @ scan_replace (placeholder a) v y"
      by blast
    have "scan_replace (placeholder a) v (placeholder a @ (x' @ placeholder k @ y))
        = v @ scan_replace (placeholder a) v (x' @ placeholder k @ y)"
      by (rule scan_replace_match) (rule placeholder_nonempty)
    moreover have "scan_replace (placeholder a) v (placeholder a @ x') = v @ scan_replace (placeholder a) v x'"
      by (rule scan_replace_match) (rule placeholder_nonempty)
    ultimately show ?thesis using ih x by simp
  next
    case False
    show ?thesis
    proof (cases x)
      case Nil
      with assms show ?thesis
        by (simp add: scan_other_placeholder scan_replace_Nil)
    next
      case (Cons c cs)
      with 1 have ih: "scan_replace (placeholder a) v (cs @ placeholder k @ y)
          = scan_replace (placeholder a) v cs @ placeholder k @ scan_replace (placeholder a) v y"
        by simp
      from False have "\<not> prefix (placeholder a) (x @ placeholder k @ y)"
        by (rule no_match_into_placeholder [OF assms])
      with Cons have "scan_replace (placeholder a) v (x @ placeholder k @ y)
          = c # scan_replace (placeholder a) v (cs @ placeholder k @ y)"
        by (simp add: scan_replace_step placeholder_nonempty)
      moreover from False Cons have "scan_replace (placeholder a) v x = c # scan_replace (placeholder a) v cs"
        by (simp add: scan_replace_step placeholder_nonempty)
      ultimately show ?thesis using ih by simp
    qed
  qed
qed

lemma substitute_around_placeholder:
  assumes "brace_free k" and "list_all brace_free (map fst m)" and "k \<notin> fst ` set m"
  shows "substitute_variables (x @ placeholder k @ y) m
       = substitute_variables x m @ placeholder k @ substitute_variables y m"
  using assms(2,3)
proof (induction m arbitrary: x y)
  case Nil
  then show ?case by simp
next
  case (Cons av m)
  obtain a v where av: "av = (a, v)" by (cases av)
  with Cons.prems have a: "brace_free a" "a \<noteq> k" and m: "list_all brace_free (map fst m)" "k \<notin> fst ` set m"
    by auto
  show ?case
    using scan_around_placeholder [OF a(1) assms(1) a(2)] Cons.IH [OF m]
    by (simp add: av replace_placeholder)
qed

lemma substitute_variables_append:
  "substitute_variables content (m1 @ m2) = substitute_variables (substitute_variables content m1) m2"
  by (induction m1 arbitrary: content) auto

lemma substitute_no_brace:
  assumes "CHR ''{'' \<notin> set x"
  shows "substitute_variables x m = x"
  using assms
proof (induction m)
  case Nil
  then show ?case by simp
next
  case (Cons av m)
  obtain a v where av: "av = (a, v)" by (cases av)
  have "scan_replace (placeholder a) v (x @ []) = x @ scan_replace (placeholder a) v []"
    using Cons.prems by (intro scan_replace_skip) (simp_all add: placeholder_nonempty hd_placeholder)
  with Cons show ?case by (simp add: av replace_placeholder scan_replace_Nil)
qed

subsection \<open>Sections and the joined document\<close>

lemma collect_sections_acc:
  "collect_sections store vars components sections
     = sections @ collect_sections store vars components []"
proof (induction components arbitrary: sections)
  case Nil
  then show ?case by simp
next
  case (Cons c cs)
  show ?case
    using Cons.IH [of "sections @ [substitute_variables (load_component store c) vars]"]
      Cons.IH [of "[substitute_variables (load_component store c) vars]"] Cons.IH [of sections]
    by (simp add: Let_def)
qed

lemma collect_sections_Cons:
  "collect_sections store vars (c # cs) []
     = (if load_component store c \<noteq> [] then [substitute_variables (load_component store c) vars] else [])
       @ collect_sections store vars cs []"
  using collect_sections_acc [of store vars cs "[substitute_variables (load_component store c) vars]"]
  by (simp add: Let_def)

lemma collect_sections_append:
  "collect_sections store vars (xs @ ys) []
     = collect_sections store vars xs [] @ collect_sections store vars ys []"
  by (induction xs) (simp_all add: collect_sections_Cons del: collect_sections.simps(2))

lemma collect_sections_filter:
  "collect_sections store vars components []
     = map (\<lambda>c. substitute_variables (load_component store c) vars)
         (filter (\<lambda>c. load_component store c \<noteq> []) components)"
  by (induction components) (simp_all add: collect_sections_Cons del: collect_sections.simps(2))

lemma join_snoc: "join sep (xs @ [z]) = concat (map (\<lambda>s. s @ sep) xs) @ z"
  by (induction sep xs rule: join.induct) simp_all

lemma assemble_dna_layout:
  "assemble_dna store components vars
     = concat (map (\<lambda>s. s @ separator) (collect_sections store vars components [])) @ protocol_reference"
  by (simp add: assemble_dna_def join_snoc)

lemma assemble_dna_append:
  "assemble_dna store (xs @ ys) vars
     = concat (map (\<lambda>s. s @ separator) (collect_sections store vars xs [])) @ assemble_dna store ys vars"
  by (simp add: assemble_dna_layout collect_sections_append)

lemma collect_sections_cong:
  assumes "\<And>c. c \<in> set components \<Longrightarrow> load_component store' c = load_component store c"
  shows "collect_sections store' vars components [] = collect_sections store vars components []"
  using assms by (induction components) (simp_all add: collect_sections_Cons del: collect_sections.simps(2))

lemma collect_sections_removed:
  assumes "load_component store' c = []"
    and "\<And>c'. c' \<noteq> c \<Longrightarrow> load_component store' c' = load_component store c'"
  shows "collect_sections store' vars components [] = collect_sections store vars (removeAll c components) []"
  using assms by (induction components) (auto simp add: collect_sections_Cons simp del: collect_sections.simps(2))

subsection \<open>The roles and the batch\<close>

lemma assemble_dna_suffix: "suffix protocol_reference (assemble_dna store components vars)"
  by (simp add: assemble_dna_layout suffix_def)

lemma assemble_dna_at:
  assumes "store c = Some t" and "t \<noteq> []"
  shows "assemble_dna store (xs @ c # ys) vars
       = concat (map (\<lambda>s. s @ separator) (collect_sections store vars xs []))
         @ substitute_variables t vars @ separator @ assemble_dna store ys vars"
proof -
  have "assemble_dna store (c # ys) vars = substitute_variables t vars @ separator @ assemble_dna store ys vars"
    using assms assemble_dna_append [of store "[c]" ys vars]
    by (simp add: collect_sections_Cons load_component_def del: collect_sections.simps(2))
  then show ?thesis
    using assemble_dna_append [of store xs "c # ys" vars] by simp
qed

lemma assemble_dna_unlisted:
  assumes "c \<notin> set components"
  shows "assemble_dna (store(c := x)) components vars = assemble_dna store components vars"
proof -
  have "collect_sections (store(c := x)) vars components [] = collect_sections store vars components []"
    using assms by (intro collect_sections_cong) (auto simp: load_component_def)
  then show ?thesis by (simp add: assemble_dna_def)
qed

lemma worker_general:
  "assemble_worker_dna store specs now ''general''
     = Inr (assemble_dna store worker_base_components (worker_variables ''general'' Map.empty now))"
  by (simp add: assemble_worker_dna_def worker_components_def)

lemma worker_dict:
  assumes "load_specialization specs sp = PyDict d" and "sp \<noteq> ''general''"
  shows "assemble_worker_dna store specs now sp
     = Inr (assemble_dna store (worker_components sp) (worker_variables sp d now))"
  using assms by (simp add: assemble_worker_dna_def)

lemma worker_document:
  assumes "assemble_worker_dna store specs now sp = Inr doc"
  shows "\<exists>d. doc = assemble_dna store (worker_components sp) (worker_variables sp d now)"
  using assms by (auto simp: assemble_worker_dna_def Let_def split: py_value.splits if_splits)

lemma worker_components_inserted:
  "list_insert (- 1) ''worker-specializations'' worker_base_components
     = [''base-header'', ''prime-directive'', ''sub-agent-context'', ''project-context'',
        ''worker-capabilities'', ''workflow-start'', ''coding-standards'',
        ''worker-specializations'', ''worker-output'']"
  by code_simp

lemma save_dna_keeps:
  assumes "save_dna outcome role content specialization files = Inr files'"
  shows "files' = files @ [(dna_filename role specialization, content)] \<and> outcome = Stored"
  using assms by (auto simp: save_dna_def Let_def split: if_splits)

lemma save_dna_stored:
  "save_dna Stored role content specialization files
     = Inr (files @ [(dna_filename role specialization, content)])"
  by (simp add: save_dna_def)

lemma save_dna_fails:
  assumes "outcome \<noteq> Stored"
  shows "save_dna outcome role content specialization files
     = Inl (OSError (dna_filename role specialization) (left_in_file outcome content))"
  using assms by (simp add: save_dna_def)

lemma assemble_specialized_closing:
  assumes "\<forall>w \<in> set files. suffix protocol_reference (snd w)"
  shows "\<forall>w \<in> set (fst (assemble_specialized store specs clock disk n names files)).
           suffix protocol_reference (snd w)"
  using assms
proof (induction names arbitrary: n files)
  case Nil
  then show ?case by simp
next
  case (Cons name names)
  show ?case
  proof (cases "assemble_worker_dna store specs (clock n) name")
    case (Inl e)
    with Cons.prems show ?thesis by simp
  next
    case (Inr doc)
    then have doc: "suffix protocol_reference doc"
      using worker_document assemble_dna_suffix by blast
    show ?thesis
    proof (cases "save_dna (disk n) ''worker'' doc (Some name) files")
      case (Inl e)
      with Inr Cons.prems show ?thesis by simp
    next
      case inner: (Inr files')
      with doc Cons.prems have "\<forall>w \<in> set files'. suffix protocol_reference (snd w)"
        using save_dna_keeps [OF inner] by auto
      from Cons.IH [OF this] Inr inner show ?thesis by simp
    qed
  qed
qed

lemma assemble_all_closing:
  "\<forall>w \<in> set (fst (assemble_all store specs clock disk)). suffix protocol_reference (snd w)"
proof -
  let ?q = "assemble_queen_dna store (clock 0)"
  let ?a = "assemble_architect_dna store (clock 1)"
  have q: "suffix protocol_reference ?q" and a: "suffix protocol_reference ?a"
    by (simp_all add: assemble_queen_dna_def assemble_architect_dna_def assemble_dna_suffix)
  have g: "suffix protocol_reference (assemble_dna store worker_base_components (worker_variables ''general'' Map.empty (clock 2)))"
    by (rule assemble_dna_suffix)
  have later: "suffix protocol_reference b"
    if "(a, b) \<in> set (fst (assemble_specialized store specs clock disk 3 (map fst specs)
            [(f1, ?q), (f2, ?a),
             (f3, assemble_dna store worker_base_components (worker_variables ''general'' Map.empty (clock 2)))]))"
    for a b f1 f2 f3
  proof -
    have "\<forall>w \<in> set (fst (assemble_specialized store specs clock disk 3 (map fst specs)
            [(f1, ?q), (f2, ?a),
             (f3, assemble_dna store worker_base_components (worker_variables ''general'' Map.empty (clock 2)))])).
          suffix protocol_reference (snd w)"
      using q a g by (intro assemble_specialized_closing) simp
    with that show ?thesis by force
  qed
  with q a show ?thesis
    by (auto simp: assemble_all_def worker_general split: sum.splits dest!: save_dna_keeps)
qed

lemma assemble_specialized_acc:
  "assemble_specialized store specs clock disk n names files
     = (files @ fst (assemble_specialized store specs clock disk n names []),
        snd (assemble_specialized store specs clock disk n names []))"
proof (induction names arbitrary: n files)
  case Nil
  then show ?case by simp
next
  case (Cons name names)
  show ?case
  proof (cases "assemble_worker_dna store specs (clock n) name")
    case (Inl e)
    then show ?thesis by simp
  next
    case (Inr doc)
    show ?thesis
    proof (cases "disk n = Stored")
      case False
      with Inr show ?thesis by (simp add: save_dna_fails)
    next
      case True
      with Inr show ?thesis
        using Cons.IH [of "Suc n" "files @ [(dna_filename ''worker'' (Some name), doc)]"]
          Cons.IH [of "Suc n" "[(dna_filename ''worker'' (Some name), doc)]"]
        by (simp add: save_dna_stored)
    qed
  qed
qed

lemma assemble_all_steps:
  "assemble_all store specs clock disk =
     (if disk 0 \<noteq> Stored
      then ([], Some (OSError ''queen.md'' (left_in_file (disk 0) (assemble_queen_dna store (clock 0)))))
      else if disk 1 \<noteq> Stored
      then ([(''queen.md'', assemble_queen_dna store (clock 0))],
            Some (OSError ''architect.md'' (left_in_file (disk 1) (assemble_architect_dna store (clock 1)))))
      else if disk 2 \<noteq> Stored
      then ([(''queen.md'', assemble_queen_dna store (clock 0)),
             (''architect.md'', assemble_architect_dna store (clock 1))],
            Some (OSError ''worker-general.md''
                    (left_in_file (disk 2)
                       (assemble_dna store worker_base_components
                          (worker_variables ''general'' Map.empty (clock 2))))))
      else assemble_specialized store specs clock disk 3 (map fst specs)
             [(''queen.md'', assemble_queen_dna store (clock 0)),
              (''architect.md'', assemble_architect_dna store (clock 1)),
              (''worker-general.md'',
                 assemble_dna store worker_base_components
                   (worker_variables ''general'' Map.empty (clock 2)))])"
  by (simp add: assemble_all_def save_dna_def dna_filename_def worker_general Let_def)

lemma assemble_specialized_breaks:
  assumes "n \<le> k" and "\<forall>j. n \<le> j \<and> j < k \<longrightarrow> disk j = Stored" and "disk k \<noteq> Stored"
    and "length files + (k - n)
           < length (fst (assemble_specialized store specs clock (\<lambda>n. Stored) n names files))"
  shows "assemble_specialized store specs clock disk n names files
       = (take (length files + (k - n))
            (fst (assemble_specialized store specs clock (\<lambda>n. Stored) n names files)),
          Some (OSError
            (fst (fst (assemble_specialized store specs clock (\<lambda>n. Stored) n names files)
                    ! (length files + (k - n))))
            (left_in_file (disk k)
               (snd (fst (assemble_specialized store specs clock (\<lambda>n. Stored) n names files)
                       ! (length files + (k - n)))))))"
  using assms
proof (induction names arbitrary: n files)
  case Nil
  then show ?case by simp
next
  case (Cons name names)
  show ?case
  proof (cases "assemble_worker_dna store specs (clock n) name")
    case (Inl e)
    with Cons.prems(4) show ?thesis by simp
  next
    case (Inr doc)
    define fn where "fn = dna_filename ''worker'' (Some name)"
    define tail where "tail = fst (assemble_specialized store specs clock (\<lambda>n. Stored) (Suc n) names [])"
    have same: "fst (assemble_specialized store specs clock (\<lambda>n. Stored) (Suc n) names (files @ [(fn, doc)]))
        = fst (assemble_specialized store specs clock (\<lambda>n. Stored) n (name # names) files)"
      using Inr by (simp add: save_dna_stored fn_def)
    have full: "fst (assemble_specialized store specs clock (\<lambda>n. Stored) n (name # names) files)
        = files @ (fn, doc) # tail"
      unfolding same [symmetric] tail_def
      by (subst assemble_specialized_acc) simp
    show ?thesis
    proof (cases "n = k")
      case True
      with Cons.prems(3) Inr
      have run: "assemble_specialized store specs clock disk n (name # names) files
          = (files, Some (OSError fn (left_in_file (disk k) doc)))"
        by (simp add: save_dna_fails fn_def)
      show ?thesis unfolding run full using True by simp
    next
      case False
      with Cons.prems(1,2) have less: "n < k" and stored: "disk n = Stored"
        by auto
      have step: "assemble_specialized store specs clock disk n (name # names) files
          = assemble_specialized store specs clock disk (Suc n) names (files @ [(fn, doc)])"
        using Inr stored by (simp add: save_dna_stored fn_def)
      have idx: "length (files @ [(fn, doc)]) + (k - Suc n) = length files + (k - n)"
        using less by simp
      from less have p1: "Suc n \<le> k"
        by simp
      from Cons.prems(2) have p2: "\<forall>j. Suc n \<le> j \<and> j < k \<longrightarrow> disk j = Stored"
        by simp
      from Cons.prems(4)
      have p4: "length (files @ [(fn, doc)]) + (k - Suc n)
          < length (fst (assemble_specialized store specs clock (\<lambda>n. Stored) (Suc n) names (files @ [(fn, doc)])))"
        unfolding same idx .
      from Cons.IH [OF p1 p2 Cons.prems(3) p4] show ?thesis
        unfolding step same idx .
    qed
  qed
qed

lemma assemble_all_breaks:
  assumes "k < length (fst (assemble_all store specs clock (\<lambda>n. Stored)))"
    and "disk k \<noteq> Stored" and "\<forall>j<k. disk j = Stored"
  shows "assemble_all store specs clock disk
       = (take k (fst (assemble_all store specs clock (\<lambda>n. Stored))),
          Some (OSError (fst (fst (assemble_all store specs clock (\<lambda>n. Stored)) ! k))
                  (left_in_file (disk k)
                     (snd (fst (assemble_all store specs clock (\<lambda>n. Stored)) ! k)))))"
proof -
  define q where "q = (''queen.md'', assemble_queen_dna store (clock 0))"
  define a where "a = (''architect.md'', assemble_architect_dna store (clock 1))"
  define g where "g = (''worker-general.md'',
      assemble_dna store worker_base_components (worker_variables ''general'' Map.empty (clock 2)))"
  define tail where "tail = fst (assemble_specialized store specs clock (\<lambda>n. Stored) 3 (map fst specs) [])"
  have stored_run: "assemble_all store specs clock (\<lambda>n. Stored)
      = assemble_specialized store specs clock (\<lambda>n. Stored) 3 (map fst specs) [q, a, g]"
    by (simp add: assemble_all_steps q_def a_def g_def)
  have full: "fst (assemble_all store specs clock (\<lambda>n. Stored)) = q # a # g # tail"
    unfolding stored_run tail_def by (subst assemble_specialized_acc) simp
  consider (queen) "k = 0" | (architect) "k = 1" | (general) "k = 2" | (later) "3 \<le> k"
    by linarith
  then show ?thesis
  proof cases
    case queen
    with assms(2) have "assemble_all store specs clock disk
        = ([], Some (OSError (fst q) (left_in_file (disk 0) (snd q))))"
      by (simp add: assemble_all_steps q_def)
    with queen show ?thesis unfolding full by simp
  next
    case architect
    with assms(2,3) have "assemble_all store specs clock disk
        = ([q], Some (OSError (fst a) (left_in_file (disk 1) (snd a))))"
      by (simp add: assemble_all_steps q_def a_def)
    with architect show ?thesis unfolding full by simp
  next
    case general
    with assms(2,3) have "assemble_all store specs clock disk
        = ([q, a], Some (OSError (fst g) (left_in_file (disk 2) (snd g))))"
      by (simp add: assemble_all_steps q_def a_def g_def)
    with general show ?thesis unfolding full by (simp add: numeral_2_eq_2)
  next
    case later
    with assms(3) have first: "disk 0 = Stored" "disk 1 = Stored" "disk 2 = Stored"
      by simp_all
    then have run: "assemble_all store specs clock disk
        = assemble_specialized store specs clock disk 3 (map fst specs) [q, a, g]"
      by (simp add: assemble_all_steps q_def a_def g_def)
    from later have idx: "length [q, a, g] + (k - 3) = k"
      by simp
    from assms(3) have p2: "\<forall>j. 3 \<le> j \<and> j < k \<longrightarrow> disk j = Stored"
      by simp
    from assms(1)
    have p4: "length [q, a, g] + (k - 3)
        < length (fst (assemble_specialized store specs clock (\<lambda>n. Stored) 3 (map fst specs) [q, a, g]))"
      unfolding idx stored_run .
    from assemble_specialized_breaks [OF later p2 assms(2) p4] show ?thesis
      unfolding run stored_run idx .
  qed
qed

lemma assemble_specialized_through:
  assumes "\<forall>i<length pre. disk (n + i) = Stored"
    and "\<forall>name \<in> set pre. \<exists>d. load_specialization specs name = PyDict d"
  shows "\<exists>mid. length mid = length pre \<and>
           assemble_specialized store specs clock disk n (pre @ names) files
             = assemble_specialized store specs clock disk (n + length pre) names (files @ mid)"
  using assms
proof (induction pre arbitrary: n files)
  case Nil
  then show ?case by simp
next
  case (Cons name pre)
  let ?fn = "dna_filename ''worker'' (Some name)"
  from Cons.prems(2) obtain d where d: "load_specialization specs name = PyDict d"
    by auto
  from Cons.prems(1) have w: "disk n = Stored"
    by force
  obtain doc where doc: "assemble_worker_dna store specs (clock n) name = Inr doc"
    using d by (cases "name = ''general''") (simp_all add: worker_general worker_dict)
  have p1: "\<forall>i<length pre. disk (Suc n + i) = Stored"
  proof (intro allI impI)
    fix i
    assume "i < length pre"
    then have "Suc i < length (name # pre)" by simp
    with Cons.prems(1) have "disk (n + Suc i) = Stored" by blast
    then show "disk (Suc n + i) = Stored" by simp
  qed
  from Cons.prems(2) have p2: "\<forall>name \<in> set pre. \<exists>d. load_specialization specs name = PyDict d"
    by simp
  from Cons.IH [OF p1 p2, of "files @ [(?fn, doc)]"]
  obtain mid where mid: "length mid = length pre"
    "assemble_specialized store specs clock disk (Suc n) (pre @ names) (files @ [(?fn, doc)])
       = assemble_specialized store specs clock disk (Suc n + length pre) names ((files @ [(?fn, doc)]) @ mid)"
    by blast
  have "length ((?fn, doc) # mid) = length (name # pre)"
    using mid(1) by simp
  moreover have "assemble_specialized store specs clock disk n ((name # pre) @ names) files
      = assemble_specialized store specs clock disk (n + length (name # pre)) names (files @ (?fn, doc) # mid)"
    using doc w mid(2) by (simp add: save_dna_stored)
  ultimately show ?case by blast
qed

lemma assemble_specialized_general:
  assumes "disk n = Stored"
  shows "assemble_specialized store specs clock disk n (''general'' # post) files
       = assemble_specialized store specs clock disk (Suc n) post
           (files @ [(''worker-general.md'',
                assemble_dna store worker_base_components (worker_variables ''general'' Map.empty (clock n)))])"
  using assms by (simp add: worker_general save_dna_stored dna_filename_def)

lemma assemble_all_stored:
  assumes "disk 0 = Stored" and "disk 1 = Stored" and "disk 2 = Stored"
  shows "assemble_all store specs clock disk
       = assemble_specialized store specs clock disk 3 (map fst specs)
           [(''queen.md'', assemble_queen_dna store (clock 0)),
            (''architect.md'', assemble_architect_dna store (clock 1)),
            (''worker-general.md'',
               assemble_dna store worker_base_components (worker_variables ''general'' Map.empty (clock 2)))]"
  using assms by (simp add: assemble_all_steps)

section \<open>Variable substitution\<close>

text \<open>
  Claim C1 says that substitution never re-substitutes a value: placeholder syntax
  \<^verbatim>\<open>{{K}}\<close> brought in by the value of one key is not replaced, and the output holds
  the value texts verbatim. \<^const>\<open>substitute_variables\<close> runs one \<^verbatim>\<open>replace\<close> per key
  over the text the earlier keys have already rewritten: with \<^verbatim>\<open>A\<close> before \<^verbatim>\<open>B\<close>, the
  value \<^verbatim>\<open>{{B}}\<close> of \<^verbatim>\<open>A\<close> is replaced by the value of \<^verbatim>\<open>B\<close>.
\<close>

theorem value_placeholder_is_replaced:
  "substitute_variables ''{{A}}'' [(''A'', ''{{B}}''), (''B'', ''x'')] = ''x'' \<and>
   substitute_variables ''{{A}}'' [(''A'', ''{{B}}''), (''B'', ''x'')] \<noteq> ''{{B}}''"
  by (simp add: replace_def placeholder_def scan_replace.simps)

text \<open>
  Claim C1, amended: substitution is one pass per key, in the order of the mapping. For a
  text of brace-free passages around one placeholder \<^verbatim>\<open>{{k}}\<close>, the keys before \<open>k\<close>
  leave the text alone, the pass of \<open>k\<close> puts the value \<open>v\<close> in, and after that only the
  keys behind \<open>k\<close> are applied to it: the value is never scanned again for \<open>k\<close> itself
  nor for an earlier key, whatever it contains, and it is scanned for every later key.
\<close>

theorem value_rescanned_by_later_keys_only:
  assumes "brace_free k" and "list_all brace_free (map fst m1)" and "k \<notin> fst ` set m1"
    and "CHR ''{'' \<notin> set x" and "CHR ''{'' \<notin> set y"
  shows "substitute_variables (x @ placeholder k @ y) (m1 @ (k, v) # m2)
       = substitute_variables (x @ v @ y) m2"
proof -
  have "substitute_variables (x @ placeholder k @ y) m1 = x @ placeholder k @ y"
    using substitute_around_placeholder [OF assms(1,2,3)] assms(4,5)
    by (simp add: substitute_no_brace)
  moreover have "replace (placeholder k) v (x @ placeholder k @ y) = x @ v @ y"
  proof -
    have "scan_replace (placeholder k) v (x @ placeholder k @ y) = x @ scan_replace (placeholder k) v (placeholder k @ y)"
      using assms(4) by (intro scan_replace_skip) (simp_all add: placeholder_nonempty hd_placeholder)
    also have "\<dots> = x @ v @ scan_replace (placeholder k) v y"
      by (simp add: scan_replace_match placeholder_nonempty)
    also have "scan_replace (placeholder k) v y = y"
      using scan_replace_skip [of "placeholder k" y v "[]"] assms(5)
      by (simp add: placeholder_nonempty hd_placeholder scan_replace_Nil)
    finally show ?thesis by (simp add: replace_placeholder)
  qed
  ultimately show ?thesis
    by (simp add: substitute_variables_append)
qed

theorem value_rescanned_by_later_keys_only_witness:
  "brace_free ''A'' \<and> list_all brace_free (map fst [(''Z'', ''z'')]) \<and>
   ''A'' \<notin> fst ` set [(''Z'', ''z'')] \<and> CHR ''{'' \<notin> set ''a '' \<and> CHR ''{'' \<notin> set '' b'' \<and>
   substitute_variables (''a '' @ placeholder ''A'' @ '' b'')
     ([(''Z'', ''z'')] @ (''A'', ''{{Z}}{{A}}{{B}}'') # [(''B'', ''x'')])
   = ''a {{Z}}{{A}}x b''"
  using value_rescanned_by_later_keys_only
          [of "''A''" "[(''Z'', ''z'')]" "''a ''" "'' b''" "''{{Z}}{{A}}{{B}}''" "[(''B'', ''x'')]"]
  by (simp add: brace_free_def replace_def placeholder_def scan_replace.simps)

text \<open>
  Claim C5 says that for every text and every mapping each occurrence of \<^verbatim>\<open>{{key}}\<close>
  is replaced by the value of its key and nothing else changes. A value can complete a
  placeholder with the text around it: here the text holds no \<^verbatim>\<open>{{B}}\<close>, the value of
  \<^verbatim>\<open>A\<close> is two braces, and the output is the value of \<^verbatim>\<open>B\<close> instead of \<^verbatim>\<open>{{B}}\<close>.
\<close>

theorem value_completes_a_placeholder:
  "substitute_variables ''{{A}}B}}'' [(''A'', ''{{''), (''B'', ''x'')] = ''x'' \<and>
   replace (placeholder ''A'') ''{{'' ''{{A}}B}}'' = ''{{B}}''"
  by (simp add: replace_def placeholder_def scan_replace.simps)

text \<open>
  Claim C5, amended. Keys are identifiers (no brace in them). First, on a text made of
  passages without an opening brace and of placeholders, with values without an opening
  brace, \<^const>\<open>substitute_variables\<close> is the simultaneous substitution: every
  occurrence of the placeholder of every key of the mapping is replaced by its value, and
  every placeholder whose key the mapping lacks stays as it is. Second, on any text and with
  any values, a placeholder whose key the mapping lacks stays byte-identical where it
  stands, the text before it and the text behind it being substituted on their own.
\<close>

theorem substitution_correct_on_placeholder_texts:
  "(list_all token_ok toks \<and> list_all variable_ok m \<longrightarrow>
      substitute_variables (render toks) m = simultaneous_substitution m toks) \<and>
   (brace_free k \<and> list_all brace_free (map fst m) \<and> k \<notin> fst ` set m \<longrightarrow>
      substitute_variables (x @ placeholder k @ y) m
      = substitute_variables x m @ placeholder k @ substitute_variables y m)"
  using substitute_render [of toks m] substitute_around_placeholder [of k m x y]
  by blast

theorem substitution_correct_on_placeholder_texts_witness:
  "list_all token_ok [Lit ''Hi '', Var ''A'', Lit '', '', Var ''A'', Lit '' and '', Var ''X''] \<and>
   list_all variable_ok [(''A'', ''x''), (''B'', ''y'')] \<and>
   substitute_variables ''Hi {{A}}, {{A}} and {{X}}'' [(''A'', ''x''), (''B'', ''y'')]
     = ''Hi x, x and {{X}}'' \<and>
   brace_free ''X'' \<and> list_all brace_free (map fst [(''A'', ''{{X}}''), (''B'', ''y'')]) \<and>
   ''X'' \<notin> fst ` set [(''A'', ''{{X}}''), (''B'', ''y'')] \<and>
   substitute_variables (''{{A}} {'' @ placeholder ''X'' @ ''} {{B}}'') [(''A'', ''{{X}}''), (''B'', ''y'')]
     = ''{{X}} {{{X}}} y''"
  using substitution_correct_on_placeholder_texts
          [of "[Lit ''Hi '', Var ''A'', Lit '', '', Var ''A'', Lit '' and '', Var ''X'']"
              "[(''A'', ''x''), (''B'', ''y'')]" "''X''" "''{{A}} {''" "''} {{B}}''"]
        substitution_correct_on_placeholder_texts
          [of "[]" "[(''A'', ''{{X}}''), (''B'', ''y'')]" "''X''" "''{{A}} {''" "''} {{B}}''"]
  by (simp add: brace_free_def render_def simultaneous_substitution_def replace_def
        placeholder_def scan_replace.simps)

section \<open>Composition of a document\<close>

text \<open>
  Claim C2: the document is the substituted texts of the components that are present and
  not empty, in the order of the component list, each followed by the separator of exactly
  two newline characters (one blank line), and then the fixed closing block; so the
  separator stands once between two consecutive sections and once between the last section
  and the closing block. The closing block is the text \<^verbatim>\<open>_assemble_dna\<close> appends, which itself
  begins with a newline character.
\<close>

theorem document_is_sections_then_closing:
  "assemble_dna store components vars
     = concat (map (\<lambda>section. section @ newline @ newline)
         (map (\<lambda>c. substitute_variables (load_component store c) vars)
            (filter (\<lambda>c. load_component store c \<noteq> []) components)))
       @ protocol_reference"
  by (simp add: assemble_dna_layout collect_sections_filter separator_def)

text \<open>The example of the specification, for the variable value it names and for the value
  \<^const>\<open>assemble_queen_dna\<close> itself uses.\<close>

theorem document_is_sections_then_closing_example:
  "assemble_dna [''base-header'' \<mapsto> ''H'', ''prime-directive'' \<mapsto> ''Do {{AGENT_TYPE}} work'']
       queen_components [(''AGENT_TYPE'', ''Coordinator'')]
     = ''H'' @ newline @ newline @ ''Do Coordinator work'' @ newline @ newline @ protocol_reference \<and>
   assemble_queen_dna [''base-header'' \<mapsto> ''H'', ''prime-directive'' \<mapsto> ''Do {{AGENT_TYPE}} work'']
       ''2025-01-01T00:00:00''
     = ''H'' @ newline @ newline @ ''Do Queen work'' @ newline @ newline @ protocol_reference"
proof -
  have given: "assemble_dna [''base-header'' \<mapsto> ''H'', ''prime-directive'' \<mapsto> ''Do {{AGENT_TYPE}} work'']
       queen_components [(''AGENT_TYPE'', ''Coordinator'')]
     = ''H'' @ newline @ newline @ ''Do Coordinator work'' @ newline @ newline @ protocol_reference"
    using document_is_sections_then_closing
            [of "[''base-header'' \<mapsto> ''H'', ''prime-directive'' \<mapsto> ''Do {{AGENT_TYPE}} work'']"
                queen_components "[(''AGENT_TYPE'', ''Coordinator'')]"]
    by (simp add: queen_components_def load_component_def replace_def placeholder_def
          scan_replace.simps)
  have queen: "assemble_queen_dna [''base-header'' \<mapsto> ''H'', ''prime-directive'' \<mapsto> ''Do {{AGENT_TYPE}} work'']
       ''2025-01-01T00:00:00''
     = ''H'' @ newline @ newline @ ''Do Queen work'' @ newline @ newline @ protocol_reference"
    by code_simp
  from given queen show ?thesis by (rule conjI)
qed

text \<open>
  Claim C9: taking a component out of the components directory, or emptying its file,
  gives the document that the unchanged directory gives for the component list without
  that name: the other components contribute the same texts in the same order, and the
  closing block is the same. Where the component is listed once and had a text, the
  document with it is the part before, its substituted text with one separator, and the
  part behind; the document without it is the part before followed by the part behind.
  All three roles build their document with \<^const>\<open>assemble_dna\<close>.
\<close>

theorem omitted_component_only_drops_its_section:
  "assemble_dna (store(c := None)) components vars = assemble_dna store (removeAll c components) vars \<and>
   assemble_dna (store(c \<mapsto> [])) components vars = assemble_dna store (removeAll c components) vars \<and>
   (c \<notin> set xs \<and> c \<notin> set ys \<and> store c = Some t \<and> t \<noteq> [] \<longrightarrow>
      assemble_dna store (xs @ c # ys) vars
        = concat (map (\<lambda>s. s @ separator) (collect_sections store vars xs []))
          @ (substitute_variables t vars @ separator) @ assemble_dna store ys vars \<and>
      assemble_dna (store(c := None)) (xs @ c # ys) vars
        = concat (map (\<lambda>s. s @ separator) (collect_sections store vars xs []))
          @ assemble_dna store ys vars)"
proof (intro conjI impI)
  show "assemble_dna (store(c := None)) components vars = assemble_dna store (removeAll c components) vars"
    using collect_sections_removed [of "store(c := None)" c store vars components]
    by (simp add: assemble_dna_def load_component_def)
  show "assemble_dna (store(c \<mapsto> [])) components vars = assemble_dna store (removeAll c components) vars"
    using collect_sections_removed [of "store(c \<mapsto> [])" c store vars components]
    by (simp add: assemble_dna_def load_component_def)
next
  assume a: "c \<notin> set xs \<and> c \<notin> set ys \<and> store c = Some t \<and> t \<noteq> []"
  have "assemble_dna store (c # ys) vars = (substitute_variables t vars @ separator) @ assemble_dna store ys vars"
    using a assemble_dna_append [of store "[c]" ys vars]
    by (simp add: collect_sections_Cons load_component_def del: collect_sections.simps(2))
  then show "assemble_dna store (xs @ c # ys) vars
        = concat (map (\<lambda>s. s @ separator) (collect_sections store vars xs []))
          @ (substitute_variables t vars @ separator) @ assemble_dna store ys vars"
    using assemble_dna_append [of store xs "c # ys" vars] by simp
  have "assemble_dna (store(c := None)) (xs @ c # ys) vars = assemble_dna store (removeAll c (xs @ c # ys)) vars"
    using collect_sections_removed [of "store(c := None)" c store vars "xs @ c # ys"]
    by (simp add: assemble_dna_def load_component_def)
  with a show "assemble_dna (store(c := None)) (xs @ c # ys) vars
        = concat (map (\<lambda>s. s @ separator) (collect_sections store vars xs []))
          @ assemble_dna store ys vars"
    by (simp add: assemble_dna_append)
qed

theorem omitted_component_only_drops_its_section_witness:
  "''b'' \<notin> set [''a''] \<and> ''b'' \<notin> set [''c''] \<and>
   [''a'' \<mapsto> ''A {{K}}'', ''b'' \<mapsto> ''B'', ''c'' \<mapsto> ''C''] ''b'' = Some ''B'' \<and> ''B'' \<noteq> [] \<and>
   assemble_dna [''a'' \<mapsto> ''A {{K}}'', ''b'' \<mapsto> ''B'', ''c'' \<mapsto> ''C''] ([''a''] @ ''b'' # [''c'']) [(''K'', ''v'')]
     = ''A v'' @ separator @ ''B'' @ separator @ ''C'' @ separator @ protocol_reference \<and>
   assemble_dna ([''a'' \<mapsto> ''A {{K}}'', ''b'' \<mapsto> ''B'', ''c'' \<mapsto> ''C''](''b'' := None))
       ([''a''] @ ''b'' # [''c'']) [(''K'', ''v'')]
     = ''A v'' @ separator @ ''C'' @ separator @ protocol_reference"
  using omitted_component_only_drops_its_section
          [of "[''a'' \<mapsto> ''A {{K}}'', ''b'' \<mapsto> ''B'', ''c'' \<mapsto> ''C'']" "''b''"
              "[''a''] @ ''b'' # [''c'']" "[(''K'', ''v'')]" "[''a'']" "[''c'']" "''B''"]
  by (simp add: assemble_dna_def load_component_def replace_def placeholder_def scan_replace.simps)

text \<open>
  Claim C7: every document ends with the same fixed protocol reference text, verbatim:
  whatever \<^const>\<open>assemble_dna\<close> returns, so the queen's and the architect's document, every
  document the worker assembly returns, and the text of every write of the batch that goes
  through.
\<close>

theorem every_document_ends_with_protocol_reference:
  "suffix protocol_reference (assemble_dna store components vars) \<and>
   suffix protocol_reference (assemble_queen_dna store now) \<and>
   suffix protocol_reference (assemble_architect_dna store now) \<and>
   (assemble_worker_dna store specs now sp = Inr doc \<longrightarrow> suffix protocol_reference doc) \<and>
   (\<forall>w \<in> set (fst (assemble_all store specs clock disk)). suffix protocol_reference (snd w))"
  using assemble_dna_suffix worker_document assemble_all_closing
  by (simp add: assemble_queen_dna_def assemble_architect_dna_def) blast

theorem every_document_ends_with_protocol_reference_witness:
  "assemble_worker_dna [''prime-directive'' \<mapsto> ''I am {{AGENT_ID}}'']
       [(''parser'', PyDict [''description'' \<mapsto> ''parsing''])] ''t'' ''parser''
     = Inr (''I am zen-worker-parser'' @ separator @ protocol_reference) \<and>
   suffix protocol_reference (''I am zen-worker-parser'' @ separator @ protocol_reference) \<and>
   fst (assemble_all [''prime-directive'' \<mapsto> ''I am {{AGENT_ID}}'']
       [(''parser'', PyDict [''description'' \<mapsto> ''parsing''])] (\<lambda>n. ''t'') (\<lambda>n. Stored))
     = [(''queen.md'', ''I am zen-queen'' @ separator @ protocol_reference),
        (''architect.md'', ''I am zen-architect'' @ separator @ protocol_reference),
        (''worker-general.md'', ''I am zen-worker-general'' @ separator @ protocol_reference),
        (''worker-parser.md'', ''I am zen-worker-parser'' @ separator @ protocol_reference)] \<and>
   suffix protocol_reference (''I am zen-queen'' @ separator @ protocol_reference) \<and>
   suffix protocol_reference (''I am zen-architect'' @ separator @ protocol_reference) \<and>
   suffix protocol_reference (''I am zen-worker-general'' @ separator @ protocol_reference)"
proof -
  have worker: "assemble_worker_dna [''prime-directive'' \<mapsto> ''I am {{AGENT_ID}}'']
       [(''parser'', PyDict [''description'' \<mapsto> ''parsing''])] ''t'' ''parser''
     = Inr (''I am zen-worker-parser'' @ separator @ protocol_reference)"
    by code_simp
  have batch: "fst (assemble_all [''prime-directive'' \<mapsto> ''I am {{AGENT_ID}}'']
       [(''parser'', PyDict [''description'' \<mapsto> ''parsing''])] (\<lambda>n. ''t'') (\<lambda>n. Stored))
     = [(''queen.md'', ''I am zen-queen'' @ separator @ protocol_reference),
        (''architect.md'', ''I am zen-architect'' @ separator @ protocol_reference),
        (''worker-general.md'', ''I am zen-worker-general'' @ separator @ protocol_reference),
        (''worker-parser.md'', ''I am zen-worker-parser'' @ separator @ protocol_reference)]"
    by code_simp
  note inst = every_document_ends_with_protocol_reference
      [of "[''prime-directive'' \<mapsto> ''I am {{AGENT_ID}}'']" "[]" "[]" "''t''"
          "[(''parser'', PyDict [''description'' \<mapsto> ''parsing''])]" "''parser''"
          "''I am zen-worker-parser'' @ separator @ protocol_reference" "\<lambda>n. ''t''" "\<lambda>n. Stored"]
  from inst worker have parser: "suffix protocol_reference (''I am zen-worker-parser'' @ separator @ protocol_reference)"
    by blast
  from inst have "\<forall>w \<in> set (fst (assemble_all [''prime-directive'' \<mapsto> ''I am {{AGENT_ID}}'']
       [(''parser'', PyDict [''description'' \<mapsto> ''parsing''])] (\<lambda>n. ''t'') (\<lambda>n. Stored))).
      suffix protocol_reference (snd w)"
    by blast
  then have written: "suffix protocol_reference (''I am zen-queen'' @ separator @ protocol_reference)"
      "suffix protocol_reference (''I am zen-architect'' @ separator @ protocol_reference)"
      "suffix protocol_reference (''I am zen-worker-general'' @ separator @ protocol_reference)"
    unfolding batch by simp_all
  from worker parser batch written show ?thesis by (intro conjI)
qed

section \<open>The worker role\<close>

text \<open>
  Claim C3: for a specialization other than \<^verbatim>\<open>general\<close> the worker's component list is
  the base list with \<^verbatim>\<open>worker-specializations\<close> put in immediately before its last element,
  so it ends coding-standards, worker-specializations, worker-output, and the document
  contains that component's substituted text: it stands, followed by one separator, behind
  the sections of the first seven components and before the part made from worker-output. For
  \<^verbatim>\<open>general\<close> nothing is inserted: the list is the base list, the component is not in it,
  and the document is the same whatever the components directory holds under that name.
\<close>

theorem worker_specializations_inserted_before_last:
  "(sp \<noteq> ''general'' \<longrightarrow>
      worker_components sp
        = [''base-header'', ''prime-directive'', ''sub-agent-context'', ''project-context'',
           ''worker-capabilities'', ''workflow-start'', ''coding-standards'',
           ''worker-specializations'', ''worker-output'']) \<and>
   (sp \<noteq> ''general'' \<and> load_specialization specs sp = PyDict d \<and>
    store ''worker-specializations'' = Some t \<and> t \<noteq> [] \<longrightarrow>
      assemble_worker_dna store specs now sp
        = Inr (concat (map (\<lambda>s. s @ separator)
                 (collect_sections store (worker_variables sp d now)
                    (butlast worker_base_components) []))
               @ substitute_variables t (worker_variables sp d now) @ separator
               @ assemble_dna store [''worker-output''] (worker_variables sp d now)) \<and>
      (\<exists>doc. assemble_worker_dna store specs now sp = Inr doc \<and>
             sublist (substitute_variables t (worker_variables sp d now)) doc)) \<and>
   worker_components ''general'' = worker_base_components \<and>
   ''worker-specializations'' \<notin> set worker_base_components \<and>
   assemble_worker_dna (store(''worker-specializations'' := x)) specs now ''general''
     = assemble_worker_dna store specs now ''general''"
proof (intro conjI impI)
  assume "sp \<noteq> ''general''"
  then show "worker_components sp
        = [''base-header'', ''prime-directive'', ''sub-agent-context'', ''project-context'',
           ''worker-capabilities'', ''workflow-start'', ''coding-standards'',
           ''worker-specializations'', ''worker-output'']"
    by (simp add: worker_components_def worker_components_inserted)
next
  assume a: "sp \<noteq> ''general'' \<and> load_specialization specs sp = PyDict d \<and>
    store ''worker-specializations'' = Some t \<and> t \<noteq> []"
  let ?vars = "worker_variables sp d now"
  have split: "worker_components sp
      = butlast worker_base_components @ ''worker-specializations'' # [''worker-output'']"
  proof -
    have "butlast worker_base_components
        = [''base-header'', ''prime-directive'', ''sub-agent-context'', ''project-context'',
           ''worker-capabilities'', ''workflow-start'', ''coding-standards'']"
      by (simp add: worker_base_components_def)
    with a show ?thesis
      by (simp add: worker_components_def worker_components_inserted)
  qed
  have "assemble_dna store (worker_components sp) ?vars
      = concat (map (\<lambda>s. s @ separator) (collect_sections store ?vars (butlast worker_base_components) []))
        @ substitute_variables t ?vars @ separator @ assemble_dna store [''worker-output''] ?vars"
    unfolding split using a by (intro assemble_dna_at) simp_all
  with a show doc: "assemble_worker_dna store specs now sp
        = Inr (concat (map (\<lambda>s. s @ separator) (collect_sections store ?vars (butlast worker_base_components) []))
               @ substitute_variables t ?vars @ separator
               @ assemble_dna store [''worker-output''] ?vars)"
    by (simp add: worker_dict)
  have "sublist (substitute_variables t ?vars)
          (concat (map (\<lambda>s. s @ separator) (collect_sections store ?vars (butlast worker_base_components) []))
               @ substitute_variables t ?vars @ separator
               @ assemble_dna store [''worker-output''] ?vars)"
    by (rule sublist_appendI)
  with doc show "\<exists>doc. assemble_worker_dna store specs now sp = Inr doc \<and>
             sublist (substitute_variables t ?vars) doc"
    by blast
next
  show "worker_components ''general'' = worker_base_components"
    by (simp add: worker_components_def)
  show "''worker-specializations'' \<notin> set worker_base_components"
    by (simp add: worker_base_components_def)
  then show "assemble_worker_dna (store(''worker-specializations'' := x)) specs now ''general''
     = assemble_worker_dna store specs now ''general''"
    by (simp add: worker_general assemble_dna_unlisted)
qed

theorem worker_specializations_inserted_before_last_witness:
  "''parser'' \<noteq> ''general'' \<and>
   load_specialization [(''parser'', PyDict [''focus_areas'' \<mapsto> ''lexing''])] ''parser''
     = PyDict [''focus_areas'' \<mapsto> ''lexing''] \<and>
   [''coding-standards'' \<mapsto> ''CS'', ''worker-specializations'' \<mapsto> ''Focus: {{FOCUS_AREAS}}'',
    ''worker-output'' \<mapsto> ''OUT''] ''worker-specializations'' = Some ''Focus: {{FOCUS_AREAS}}'' \<and>
   ''Focus: {{FOCUS_AREAS}}'' \<noteq> [] \<and>
   assemble_worker_dna
     [''coding-standards'' \<mapsto> ''CS'', ''worker-specializations'' \<mapsto> ''Focus: {{FOCUS_AREAS}}'',
      ''worker-output'' \<mapsto> ''OUT'']
     [(''parser'', PyDict [''focus_areas'' \<mapsto> ''lexing''])] ''t'' ''parser''
     = Inr (''CS'' @ separator @ ''Focus: lexing'' @ separator @ ''OUT'' @ separator @ protocol_reference) \<and>
   assemble_worker_dna
     [''coding-standards'' \<mapsto> ''CS'', ''worker-specializations'' \<mapsto> ''Focus: {{FOCUS_AREAS}}'',
      ''worker-output'' \<mapsto> ''OUT'']
     [(''parser'', PyDict [''focus_areas'' \<mapsto> ''lexing''])] ''t'' ''general''
     = Inr (''CS'' @ separator @ ''OUT'' @ separator @ protocol_reference) \<and>
   (\<exists>doc. assemble_worker_dna
     [''coding-standards'' \<mapsto> ''CS'', ''worker-specializations'' \<mapsto> ''Focus: {{FOCUS_AREAS}}'',
      ''worker-output'' \<mapsto> ''OUT'']
     [(''parser'', PyDict [''focus_areas'' \<mapsto> ''lexing''])] ''t'' ''parser'' = Inr doc \<and>
     sublist (substitute_variables ''Focus: {{FOCUS_AREAS}}''
                (worker_variables ''parser'' [''focus_areas'' \<mapsto> ''lexing''] ''t'')) doc)"
proof -
  have hyps: "''parser'' \<noteq> ''general'' \<and>
   load_specialization [(''parser'', PyDict [''focus_areas'' \<mapsto> ''lexing''])] ''parser''
     = PyDict [''focus_areas'' \<mapsto> ''lexing''] \<and>
   [''coding-standards'' \<mapsto> ''CS'', ''worker-specializations'' \<mapsto> ''Focus: {{FOCUS_AREAS}}'',
    ''worker-output'' \<mapsto> ''OUT''] ''worker-specializations'' = Some ''Focus: {{FOCUS_AREAS}}'' \<and>
   ''Focus: {{FOCUS_AREAS}}'' \<noteq> []"
    by (simp add: load_specialization_def)
  have special: "assemble_worker_dna
     [''coding-standards'' \<mapsto> ''CS'', ''worker-specializations'' \<mapsto> ''Focus: {{FOCUS_AREAS}}'',
      ''worker-output'' \<mapsto> ''OUT'']
     [(''parser'', PyDict [''focus_areas'' \<mapsto> ''lexing''])] ''t'' ''parser''
     = Inr (''CS'' @ separator @ ''Focus: lexing'' @ separator @ ''OUT'' @ separator @ protocol_reference)"
    by code_simp
  have general: "assemble_worker_dna
     [''coding-standards'' \<mapsto> ''CS'', ''worker-specializations'' \<mapsto> ''Focus: {{FOCUS_AREAS}}'',
      ''worker-output'' \<mapsto> ''OUT'']
     [(''parser'', PyDict [''focus_areas'' \<mapsto> ''lexing''])] ''t'' ''general''
     = Inr (''CS'' @ separator @ ''OUT'' @ separator @ protocol_reference)"
    by code_simp
  note inst = worker_specializations_inserted_before_last
      [of "''parser''" "[(''parser'', PyDict [''focus_areas'' \<mapsto> ''lexing''])]"
          "[''focus_areas'' \<mapsto> ''lexing'']"
          "[''coding-standards'' \<mapsto> ''CS'', ''worker-specializations'' \<mapsto> ''Focus: {{FOCUS_AREAS}}'',
            ''worker-output'' \<mapsto> ''OUT'']"
          "''Focus: {{FOCUS_AREAS}}''" "''t''"]
  from inst hyps special general show ?thesis by blast
qed

text \<open>
  Claim C8: for a specialization name that has no file in the specializations directory,
  the record loaded is the empty dict, the worker document is assembled, and the variables
  used for it have \<^verbatim>\<open>general implementation\<close> as the description inside the prime
  directive and the empty text for \<^verbatim>\<open>SPECIALIZATION_DETAILS\<close>, \<^verbatim>\<open>FOCUS_AREAS\<close> and
  \<^verbatim>\<open>KEY_PATTERNS\<close>.
\<close>

theorem absent_specialization_gives_defaults:
  "map_of specs sp = None \<longrightarrow>
     load_specialization specs sp = PyDict Map.empty \<and>
     assemble_worker_dna store specs now sp
       = Inr (assemble_dna store (worker_components sp) (worker_variables sp Map.empty now)) \<and>
     worker_variables sp Map.empty now
       = [(''AGENT_TYPE'', ''Worker''),
          (''AGENT_ID'', ''zen-worker-'' @ sp),
          (''TIMESTAMP'', now),
          (''SPECIALIZATION'', sp),
          (''PRIME_DIRECTIVE'',
             ''Transform architectural designs into working code that strictly adheres to MANIFEST.json specifications. You are specialized in ''
             @ ''general implementation''
             @ ''. You implement with precision but do NOT make architectural decisions.''),
          (''TOOL_ACCESS'', ''Read, Edit, MultiEdit, Bash''),
          (''SPECIALIZATION_DETAILS'', ''''),
          (''FOCUS_AREAS'', ''''),
          (''KEY_PATTERNS'', '''')]"
proof
  assume absent: "map_of specs sp = None"
  then have load: "load_specialization specs sp = PyDict Map.empty"
    by (simp add: load_specialization_def)
  have doc: "assemble_worker_dna store specs now sp
       = Inr (assemble_dna store (worker_components sp) (worker_variables sp Map.empty now))"
  proof (cases "sp = ''general''")
    case True
    then show ?thesis by (simp add: worker_general worker_components_def)
  next
    case False
    with load show ?thesis by (simp add: worker_dict)
  qed
  have vars: "worker_variables sp Map.empty now
       = [(''AGENT_TYPE'', ''Worker''),
          (''AGENT_ID'', ''zen-worker-'' @ sp),
          (''TIMESTAMP'', now),
          (''SPECIALIZATION'', sp),
          (''PRIME_DIRECTIVE'',
             ''Transform architectural designs into working code that strictly adheres to MANIFEST.json specifications. You are specialized in ''
             @ ''general implementation''
             @ ''. You implement with precision but do NOT make architectural decisions.''),
          (''TOOL_ACCESS'', ''Read, Edit, MultiEdit, Bash''),
          (''SPECIALIZATION_DETAILS'', ''''),
          (''FOCUS_AREAS'', ''''),
          (''KEY_PATTERNS'', '''')]"
    unfolding worker_variables_def dict_get_def by simp
  from load doc vars show "load_specialization specs sp = PyDict Map.empty \<and>
     assemble_worker_dna store specs now sp
       = Inr (assemble_dna store (worker_components sp) (worker_variables sp Map.empty now)) \<and>
     worker_variables sp Map.empty now
       = [(''AGENT_TYPE'', ''Worker''),
          (''AGENT_ID'', ''zen-worker-'' @ sp),
          (''TIMESTAMP'', now),
          (''SPECIALIZATION'', sp),
          (''PRIME_DIRECTIVE'',
             ''Transform architectural designs into working code that strictly adheres to MANIFEST.json specifications. You are specialized in ''
             @ ''general implementation''
             @ ''. You implement with precision but do NOT make architectural decisions.''),
          (''TOOL_ACCESS'', ''Read, Edit, MultiEdit, Bash''),
          (''SPECIALIZATION_DETAILS'', ''''),
          (''FOCUS_AREAS'', ''''),
          (''KEY_PATTERNS'', '''')]"
    by (intro conjI)
qed

theorem absent_specialization_gives_defaults_witness:
  "map_of [(''lexer'', PyDict [''description'' \<mapsto> ''lexing''])] ''parser'' = None \<and>
   assemble_worker_dna
     [''prime-directive'' \<mapsto> ''{{PRIME_DIRECTIVE}}'',
      ''worker-specializations'' \<mapsto> ''[{{SPECIALIZATION_DETAILS}}|{{FOCUS_AREAS}}|{{KEY_PATTERNS}}]'']
     [(''lexer'', PyDict [''description'' \<mapsto> ''lexing''])] ''t'' ''parser''
   = Inr (''Transform architectural designs into working code that strictly adheres to MANIFEST.json specifications. You are specialized in general implementation. You implement with precision but do NOT make architectural decisions.''
          @ separator @ ''[||]'' @ separator @ protocol_reference)"
proof -
  have absent: "map_of [(''lexer'', PyDict [''description'' \<mapsto> ''lexing''])] ''parser'' = None"
    by simp
  have "assemble_dna
     [''prime-directive'' \<mapsto> ''{{PRIME_DIRECTIVE}}'',
      ''worker-specializations'' \<mapsto> ''[{{SPECIALIZATION_DETAILS}}|{{FOCUS_AREAS}}|{{KEY_PATTERNS}}]'']
     (worker_components ''parser'') (worker_variables ''parser'' Map.empty ''t'')
   = ''Transform architectural designs into working code that strictly adheres to MANIFEST.json specifications. You are specialized in general implementation. You implement with precision but do NOT make architectural decisions.''
          @ separator @ ''[||]'' @ separator @ protocol_reference"
    by code_simp
  with absent absent_specialization_gives_defaults
      [of "[(''lexer'', PyDict [''description'' \<mapsto> ''lexing''])]" "''parser''"
          "[''prime-directive'' \<mapsto> ''{{PRIME_DIRECTIVE}}'',
            ''worker-specializations'' \<mapsto> ''[{{SPECIALIZATION_DETAILS}}|{{FOCUS_AREAS}}|{{KEY_PATTERNS}}]'']"
          "''t''"]
  show ?thesis by simp
qed

text \<open>
  Claim C6 says that assembly returns a document for every state of the specializations
  directory, a present but empty record included. For an empty \<^verbatim>\<open>.yaml\<close> file
  \<^verbatim>\<open>yaml.safe_load\<close> returns \<^verbatim>\<open>None\<close>, \<^verbatim>\<open>load_specialization\<close> hands it on, and
  \<^verbatim>\<open>spec_data.get\<close> raises \<^verbatim>\<open>AttributeError\<close>: the worker assembly returns no document,
  and the batch ends at that specialization.
\<close>

theorem empty_specialization_file_raises:
  "assemble_worker_dna store [(''parser'', PyNone)] now ''parser'' = Inl AttributeError \<and>
   assemble_all store [(''parser'', PyNone)] clock (\<lambda>n. Stored)
     = ([(''queen.md'', assemble_queen_dna store (clock 0)),
         (''architect.md'', assemble_architect_dna store (clock 1)),
         (''worker-general.md'',
            assemble_dna store worker_base_components (worker_variables ''general'' Map.empty (clock 2)))],
        Some AttributeError)"
  by (simp add: assemble_all_def save_dna_def dna_filename_def worker_components_def
        assemble_worker_dna_def load_specialization_def)

section \<open>The batch\<close>

text \<open>
  Claim C4 says that a document that cannot be written fails alone, that the batch goes on
  with the remaining documents, and that nothing of the failed document is left behind.
  \<^verbatim>\<open>save_dna\<close> and \<^verbatim>\<open>assemble_all\<close> catch nothing, so the exception of the failed call
  ends the run: when the first call is refused, nothing is written at all, although the
  run without the failure writes three documents. And \<^verbatim>\<open>write_text\<close> opens the file
  before it writes: when the second call breaks before any character is written, the
  architect's file is left empty and the worker document is never assembled.
\<close>

theorem write_failure_is_not_isolated:
  "assemble_all Map.empty [] (\<lambda>n. ''t'') (\<lambda>n. if n = 0 then Refused else Stored)
     = ([], Some (OSError ''queen.md'' None)) \<and>
   fst (assemble_all Map.empty [] (\<lambda>n. ''t'') (\<lambda>n. Stored))
     = [(''queen.md'', protocol_reference), (''architect.md'', protocol_reference),
        (''worker-general.md'', protocol_reference)] \<and>
   assemble_all Map.empty [] (\<lambda>n. ''t'') (\<lambda>n. if n = 1 then Broken 0 else Stored)
     = ([(''queen.md'', protocol_reference)], Some (OSError ''architect.md'' (Some [])))"
  by (simp add: assemble_all_steps assemble_queen_dna_def assemble_architect_dna_def
        assemble_dna_layout collect_sections_filter load_component_def)

text \<open>
  Claim C4, amended: a write failure is surfaced and ends the batch. Let the call number
  \<open>k\<close> be the first that does not go through, and let the batch get as far as its
  document, that is, the run in which every call goes through writes more than \<open>k\<close>
  documents. Then the run ends with the \<open>OSError\<close> of that document's file, the files
  written are exactly the \<open>k\<close> documents before it, each in full, and no later
  document is assembled or handed off. The file of the failed document is not protected:
  it is untouched when the call was refused, and otherwise it holds the characters that
  were written before the call broke.
\<close>

theorem write_failure_ends_the_batch:
  assumes "k < length (fst (assemble_all store specs clock (\<lambda>n. Stored)))"
    and "disk k \<noteq> Stored" and "\<forall>j<k. disk j = Stored"
  shows "assemble_all store specs clock disk
       = (take k (fst (assemble_all store specs clock (\<lambda>n. Stored))),
          Some (OSError (fst (fst (assemble_all store specs clock (\<lambda>n. Stored)) ! k))
                  (left_in_file (disk k)
                     (snd (fst (assemble_all store specs clock (\<lambda>n. Stored)) ! k)))))"
  using assms by (rule assemble_all_breaks)

theorem write_failure_ends_the_batch_witness:
  "fst (assemble_all Map.empty [(''parser'', PyDict Map.empty)] (\<lambda>n. ''t'') (\<lambda>n. Stored))
     = [(''queen.md'', protocol_reference), (''architect.md'', protocol_reference),
        (''worker-general.md'', protocol_reference), (''worker-parser.md'', protocol_reference)] \<and>
   assemble_all Map.empty [(''parser'', PyDict Map.empty)] (\<lambda>n. ''t'')
       (\<lambda>n. if n = 2 then Broken 3 else Stored)
     = ([(''queen.md'', protocol_reference), (''architect.md'', protocol_reference)],
        Some (OSError ''worker-general.md'' (Some (take 3 protocol_reference)))) \<and>
   assemble_all Map.empty [(''parser'', PyDict Map.empty)] (\<lambda>n. ''t'')
       (\<lambda>n. if n = 3 then Refused else Stored)
     = ([(''queen.md'', protocol_reference), (''architect.md'', protocol_reference),
         (''worker-general.md'', protocol_reference)],
        Some (OSError ''worker-parser.md'' None))"
proof -
  have full: "fst (assemble_all Map.empty [(''parser'', PyDict Map.empty)] (\<lambda>n. ''t'') (\<lambda>n. Stored))
     = [(''queen.md'', protocol_reference), (''architect.md'', protocol_reference),
        (''worker-general.md'', protocol_reference), (''worker-parser.md'', protocol_reference)]"
    by code_simp
  have broken: "assemble_all Map.empty [(''parser'', PyDict Map.empty)] (\<lambda>n. ''t'')
       (\<lambda>n. if n = 2 then Broken 3 else Stored)
     = ([(''queen.md'', protocol_reference), (''architect.md'', protocol_reference)],
        Some (OSError ''worker-general.md'' (Some (take 3 protocol_reference))))"
    using write_failure_ends_the_batch
            [where k = 2 and store = Map.empty and specs = "[(''parser'', PyDict Map.empty)]"
               and clock = "\<lambda>n. ''t''" and disk = "\<lambda>n. if n = 2 then Broken 3 else Stored"]
    unfolding full by simp
  have refused: "assemble_all Map.empty [(''parser'', PyDict Map.empty)] (\<lambda>n. ''t'')
       (\<lambda>n. if n = 3 then Refused else Stored)
     = ([(''queen.md'', protocol_reference), (''architect.md'', protocol_reference),
         (''worker-general.md'', protocol_reference)],
        Some (OSError ''worker-parser.md'' None))"
    using write_failure_ends_the_batch
            [where k = 3 and store = Map.empty and specs = "[(''parser'', PyDict Map.empty)]"
               and clock = "\<lambda>n. ''t''" and disk = "\<lambda>n. if n = 3 then Refused else Stored"]
    unfolding full by simp
  from full broken refused show ?thesis by (intro conjI)
qed

text \<open>
  Claim C10: the worker assembly for the name \<^verbatim>\<open>general\<close> never looks into the
  specializations directory: its document is built from the base component list and the
  variables of the empty record, the same as with an empty directory. So when the directory
  holds a file \<^verbatim>\<open>general.yaml\<close> and the writes go through, the batch writes
  \<^verbatim>\<open>worker-general.md\<close> twice, third and again when the enumeration reaches that name,
  both times with the document of the default values (the two differ at most in the
  timestamp of their assembly call).
\<close>

theorem general_record_is_ignored_and_written_twice:
  "assemble_worker_dna store specs now ''general''
     = Inr (assemble_dna store worker_base_components (worker_variables ''general'' Map.empty now)) \<and>
   assemble_worker_dna store specs now ''general'' = assemble_worker_dna store [] now ''general'' \<and>
   (map fst specs = pre @ ''general'' # post \<and>
    (\<forall>n \<le> 3 + length pre. disk n = Stored) \<and>
    (\<forall>name \<in> set pre. \<exists>d. load_specialization specs name = PyDict d) \<longrightarrow>
    (\<exists>mid rest.
       length mid = length pre \<and>
       fst (assemble_all store specs clock disk)
         = [(''queen.md'', assemble_queen_dna store (clock 0)),
            (''architect.md'', assemble_architect_dna store (clock 1)),
            (''worker-general.md'',
               assemble_dna store worker_base_components (worker_variables ''general'' Map.empty (clock 2)))]
           @ mid
           @ (''worker-general.md'',
                assemble_dna store worker_base_components
                  (worker_variables ''general'' Map.empty (clock (3 + length pre))))
           # rest))"
proof (intro conjI impI)
  show "assemble_worker_dna store specs now ''general''
     = Inr (assemble_dna store worker_base_components (worker_variables ''general'' Map.empty now))"
    by (rule worker_general)
  show "assemble_worker_dna store specs now ''general'' = assemble_worker_dna store [] now ''general''"
    unfolding worker_general by (rule refl)
next
  assume a: "map fst specs = pre @ ''general'' # post \<and>
    (\<forall>n \<le> 3 + length pre. disk n = Stored) \<and>
    (\<forall>name \<in> set pre. \<exists>d. load_specialization specs name = PyDict d)"
  define first3 where "first3 =
     [(''queen.md'', assemble_queen_dna store (clock 0)),
      (''architect.md'', assemble_architect_dna store (clock 1)),
      (''worker-general.md'',
         assemble_dna store worker_base_components (worker_variables ''general'' Map.empty (clock 2)))]"
  define again where "again =
     (''worker-general.md'',
        assemble_dna store worker_base_components
          (worker_variables ''general'' Map.empty (clock (3 + length pre))))"
  from a have names: "map fst specs = pre @ ''general'' # post"
    and w: "\<forall>n \<le> 3 + length pre. disk n = Stored"
    and pre: "\<forall>name \<in> set pre. \<exists>d. load_specialization specs name = PyDict d"
    by blast+
  from w have first: "disk 0 = Stored" "disk 1 = Stored" "disk 2 = Stored"
    and loop: "\<forall>i<length pre. disk (3 + i) = Stored"
    and last: "disk (3 + length pre) = Stored"
    by simp_all
  have start: "assemble_all store specs clock disk
      = assemble_specialized store specs clock disk 3 (pre @ ''general'' # post) first3"
    unfolding first3_def names [symmetric]
    by (rule assemble_all_stored [where disk = disk, OF first])
  from assemble_specialized_through
         [where disk = disk and n = 3 and names = "''general'' # post" and files = first3
            and store = store and clock = clock, OF loop pre]
  obtain mid where mid: "length mid = length pre"
    and through: "assemble_specialized store specs clock disk 3 (pre @ ''general'' # post) first3
       = assemble_specialized store specs clock disk (3 + length pre) (''general'' # post) (first3 @ mid)"
    by blast
  have second: "assemble_specialized store specs clock disk (3 + length pre) (''general'' # post) (first3 @ mid)
      = assemble_specialized store specs clock disk (Suc (3 + length pre)) post ((first3 @ mid) @ [again])"
    unfolding again_def
    by (rule assemble_specialized_general [where disk = disk and n = "3 + length pre", OF last])
  define rest where "rest = fst (assemble_specialized store specs clock disk (Suc (3 + length pre)) post [])"
  have "fst (assemble_specialized store specs clock disk (Suc (3 + length pre)) post ((first3 @ mid) @ [again]))
      = ((first3 @ mid) @ [again]) @ rest"
    unfolding rest_def by (subst assemble_specialized_acc) (rule fst_conv)
  then have "fst (assemble_all store specs clock disk) = first3 @ mid @ again # rest"
    unfolding start through second by simp
  with mid show "\<exists>mid rest.
       length mid = length pre \<and>
       fst (assemble_all store specs clock disk)
         = [(''queen.md'', assemble_queen_dna store (clock 0)),
            (''architect.md'', assemble_architect_dna store (clock 1)),
            (''worker-general.md'',
               assemble_dna store worker_base_components (worker_variables ''general'' Map.empty (clock 2)))]
           @ mid
           @ (''worker-general.md'',
                assemble_dna store worker_base_components
                  (worker_variables ''general'' Map.empty (clock (3 + length pre))))
           # rest"
    unfolding first3_def again_def by blast
qed

theorem general_record_is_ignored_and_written_twice_witness:
  "map fst [(''parser'', PyDict Map.empty), (''general'', PyDict [''description'' \<mapsto> ''everything''])]
     = [''parser''] @ ''general'' # [] \<and>
   (\<exists>d. load_specialization
           [(''parser'', PyDict Map.empty), (''general'', PyDict [''description'' \<mapsto> ''everything''])] ''parser''
         = PyDict d) \<and>
   assemble_worker_dna [''prime-directive'' \<mapsto> ''{{PRIME_DIRECTIVE}}'']
       [(''parser'', PyDict Map.empty), (''general'', PyDict [''description'' \<mapsto> ''everything''])]
       ''t'' ''general''
     = Inr (''Transform architectural designs into working code that strictly adheres to MANIFEST.json specifications. You are specialized in general implementation. You implement with precision but do NOT make architectural decisions.''
            @ separator @ protocol_reference) \<and>
   (\<exists>mid rest. length mid = length [''parser''] \<and>
      fst (assemble_all [''prime-directive'' \<mapsto> ''{{PRIME_DIRECTIVE}}'']
          [(''parser'', PyDict Map.empty), (''general'', PyDict [''description'' \<mapsto> ''everything''])]
          (\<lambda>n. ''t'') (\<lambda>n. Stored))
       = [(''queen.md'', assemble_queen_dna [''prime-directive'' \<mapsto> ''{{PRIME_DIRECTIVE}}''] ''t''),
          (''architect.md'', assemble_architect_dna [''prime-directive'' \<mapsto> ''{{PRIME_DIRECTIVE}}''] ''t''),
          (''worker-general.md'',
             assemble_dna [''prime-directive'' \<mapsto> ''{{PRIME_DIRECTIVE}}''] worker_base_components
               (worker_variables ''general'' Map.empty ''t''))]
         @ mid
         @ (''worker-general.md'',
              assemble_dna [''prime-directive'' \<mapsto> ''{{PRIME_DIRECTIVE}}''] worker_base_components
                (worker_variables ''general'' Map.empty ''t''))
         # rest)"
proof -
  have names: "map fst [(''parser'', PyDict Map.empty), (''general'', PyDict [''description'' \<mapsto> ''everything''])]
     = [''parser''] @ ''general'' # []"
    by simp
  have ok: "\<exists>d. load_specialization
           [(''parser'', PyDict Map.empty), (''general'', PyDict [''description'' \<mapsto> ''everything''])] ''parser''
         = PyDict d"
    by (simp add: load_specialization_def)
  have stored: "\<forall>n \<le> 3 + length [''parser'']. (Stored :: write_outcome) = Stored"
    by simp
  note inst = general_record_is_ignored_and_written_twice
      [where store = "[''prime-directive'' \<mapsto> ''{{PRIME_DIRECTIVE}}'']"
         and specs = "[(''parser'', PyDict Map.empty), (''general'', PyDict [''description'' \<mapsto> ''everything''])]"
         and now = "''t''" and pre = "[''parser'']" and post = "[]"
         and disk = "\<lambda>n. Stored" and clock = "\<lambda>n. ''t''"]
  have content: "assemble_dna [''prime-directive'' \<mapsto> ''{{PRIME_DIRECTIVE}}''] worker_base_components
               (worker_variables ''general'' Map.empty ''t'')
     = ''Transform architectural designs into working code that strictly adheres to MANIFEST.json specifications. You are specialized in general implementation. You implement with precision but do NOT make architectural decisions.''
            @ separator @ protocol_reference"
    by code_simp
  from inst have doc: "assemble_worker_dna [''prime-directive'' \<mapsto> ''{{PRIME_DIRECTIVE}}'']
       [(''parser'', PyDict Map.empty), (''general'', PyDict [''description'' \<mapsto> ''everything''])]
       ''t'' ''general''
     = Inr (''Transform architectural designs into working code that strictly adheres to MANIFEST.json specifications. You are specialized in general implementation. You implement with precision but do NOT make architectural decisions.''
            @ separator @ protocol_reference)"
    unfolding content by (rule conjunct1)
  from ok have "\<forall>name \<in> set [''parser''].
      (\<exists>d. load_specialization
              [(''parser'', PyDict Map.empty), (''general'', PyDict [''description'' \<mapsto> ''everything''])] name
            = PyDict d)"
    by simp
  with inst names stored have twice: "\<exists>mid rest. length mid = length [''parser''] \<and>
      fst (assemble_all [''prime-directive'' \<mapsto> ''{{PRIME_DIRECTIVE}}'']
          [(''parser'', PyDict Map.empty), (''general'', PyDict [''description'' \<mapsto> ''everything''])]
          (\<lambda>n. ''t'') (\<lambda>n. Stored))
       = [(''queen.md'', assemble_queen_dna [''prime-directive'' \<mapsto> ''{{PRIME_DIRECTIVE}}''] ''t''),
          (''architect.md'', assemble_architect_dna [''prime-directive'' \<mapsto> ''{{PRIME_DIRECTIVE}}''] ''t''),
          (''worker-general.md'',
             assemble_dna [''prime-directive'' \<mapsto> ''{{PRIME_DIRECTIVE}}''] worker_base_components
               (worker_variables ''general'' Map.empty ''t''))]
         @ mid
         @ (''worker-general.md'',
              assemble_dna [''prime-directive'' \<mapsto> ''{{PRIME_DIRECTIVE}}''] worker_base_components
                (worker_variables ''general'' Map.empty ''t''))
         # rest"
    by blast
  from names ok doc twice show ?thesis by (intro conjI)
qed

end
